theory Spec2Isabelle
  imports Complex_Main
begin

section \<open>The launcher of src/index.js as an event-driven state machine\<close>

text \<open>
  The launcher is a single-threaded Node.js program: module-level variables
  (\<open>child\<close>, \<open>restarting\<close>, \<open>currentDelay\<close>, \<open>restartTimer\<close>,
  \<open>global.countRestart\<close>) are mutated by callbacks that the event loop runs one at a
  time. The model is a record of these variables together with the part of the runtime
  the callbacks talk to (the child-process objects made by \<open>spawn\<close>, the table of armed
  timeouts, the lines handed to \<open>logger\<close>), and one function per callback. An event is
  one callback invocation; a run is a list of events. A function that can throw returns
  either its exception or the new state, and an exception that reaches the event loop
  ends the run.

  Delays are JavaScript numbers. Every delay the launcher can reach from 2000 with factor
  1.5 under the cap 60000 is a dyadic rational that a double holds exactly, so the delays
  are modelled as rationals.
\<close>

subsection \<open>Configuration (lines 69 to 73)\<close>

record backoff =
  initial :: rat
  max_ms :: rat
  factor :: rat

definition BACKOFF :: backoff where
  "BACKOFF = \<lparr> initial = 2000, max_ms = 60000, factor = 3 / 2 \<rparr>"

subsection \<open>Runtime objects\<close>

text \<open>
  A \<open>ChildProcess\<close> object as far as line 121 reads it: \<open>killed\<close> is set by the runtime
  once \<open>kill()\<close> has delivered a signal, \<open>exitCode\<close> and \<open>signalCode\<close> are \<open>null\<close>
  until the runtime has seen the process end.
\<close>

record proc =
  killed :: bool
  exitCode :: "int option"
  signalCode :: "string option"

text \<open>The second argument of \<open>scheduleRestartWithBackoff\<close>'s callers (lines 130 and 148).\<close>

datatype reason = SpawnFailed | ChildExited "int option"

text \<open>One constructor per \<open>logger\<close> call site, carrying the interpolated values.\<close>

datatype log_entry =
    LogStarting string
  | LogServerRunning
  | LogPermissionDenied
  | LogServerError string
  | LogScriptNotFound
  | LogChildStdout string
  | LogChildStderr string
  | LogChildError string
  | LogChildSpawned nat
  | LogAlreadyRunning
  | LogChildClosed "int option" "string option"
  | LogRestartInProgress
  | LogScheduling reason int
  | LogChildExited "int option" "string option"


subsection \<open>The launcher's state\<close>

text \<open>
  \<open>procs\<close> holds every object \<open>spawn\<close> has returned, in order; a child handle is an index
  into it. \<open>timers\<close> holds the delay of every \<open>setTimeout\<close> call, in order; a timer
  handle is an index into it, and \<open>pending\<close> lists the handles that are armed (neither
  fired nor cleared). \<open>logged\<close> is what \<open>logger\<close> has received.
\<close>

record launcher =
  procs :: "proc list"
  timers :: "rat list"
  pending :: "nat list"
  logged :: "log_entry list"
  countRestart :: int
  child :: "nat option"
  restarting :: bool
  currentDelay :: rat
  restartTimer :: "nat option"

text \<open>
  Lines 63 to 75 and 160: the state after the module has been loaded. The argument is
  the value \<open>global.countRestart\<close> had before (\<open>None\<close> for \<open>undefined\<close>);
  \<open>x || 0\<close> keeps a non-zero number.
\<close>

definition initState :: "int option \<Rightarrow> launcher" where
  "initState g = \<lparr> procs = [], timers = [], pending = [], logged = [],
     countRestart = (case g of None \<Rightarrow> 0 | Some n \<Rightarrow> n),
     child = None, restarting = False,
     currentDelay = initial BACKOFF, restartTimer = None \<rparr>"

definition logger :: "log_entry \<Rightarrow> launcher \<Rightarrow> launcher" where
  "logger e s = s\<lparr> logged := logged s @ [e] \<rparr>"

text \<open>\<open>setTimeout\<close> arms a fresh timer and returns its handle; \<open>clearTimeout\<close> disarms.\<close>

definition setTimeout :: "rat \<Rightarrow> launcher \<Rightarrow> nat \<times> launcher" where
  "setTimeout d s =
     (length (timers s),
      s\<lparr> timers := timers s @ [d], pending := pending s @ [length (timers s)] \<rparr>)"

definition clearTimeout :: "nat \<Rightarrow> launcher \<Rightarrow> launcher" where
  "clearTimeout t s = s\<lparr> pending := removeAll t (pending s) \<rparr>"

text \<open>\<open>Math.round\<close>: to the nearest integer, halves upwards.\<close>

definition Math_round :: "rat \<Rightarrow> int" where
  "Math_round x = \<lfloor>x + 1 / 2\<rfloor>"

subsection \<open>spawnChild (lines 80 to 113)\<close>

text \<open>
  What the environment answers at lines 83 and 90. Either \<open>fs.existsSync(scriptPath)\<close>
  is false; or the script is there and \<open>spawn\<close> throws; or \<open>spawn\<close> returns a new
  process object. The runtime throws at once every error of the operating system other
  than \<open>EACCES\<close>, \<open>EAGAIN\<close>, \<open>EMFILE\<close>, \<open>ENFILE\<close> and \<open>ENOENT\<close> (for
  instance \<open>E2BIG\<close>, \<open>ENOTDIR\<close>, \<open>ENOMEM\<close>); those five it reports later, through
  the \<open>error\<close> event of the object it returns.
\<close>

datatype spawn_outcome = ScriptMissing | SpawnThrows string | SpawnReturns

text \<open>The exception of a throwing \<open>spawn\<close>, with the error's code.\<close>

datatype error = SpawnError string

text \<open>
  A call either returns the new state, or throws: \<open>Inl\<close> holds the exception and the
  state at the throw.
\<close>

type_synonym outcome = "(error \<times> launcher) + launcher"

text \<open>
  \<open>spawnChild\<close> has no \<open>try\<close>: an exception of \<open>spawn\<close> leaves it as it came.
  The handlers that lines 97 to 110 attach to a returned object only log.
\<close>

definition spawnChild :: "spawn_outcome \<Rightarrow> launcher \<Rightarrow> error + nat option \<times> launcher" where
  "spawnChild answer s =
     (case answer of
        ScriptMissing \<Rightarrow> Inr (None, logger LogScriptNotFound s)
      | SpawnThrows code \<Rightarrow> Inl (SpawnError code)
      | SpawnReturns \<Rightarrow>
          Inr (Some (length (procs s)),
               s\<lparr> procs := procs s @ [\<lparr> killed = False, exitCode = None, signalCode = None \<rparr>] \<rparr>))"

subsection \<open>The Backoff Policy\<close>

text \<open>
  Modelled from the spec: the statement that advances \<open>currentDelay\<close> lies beyond the
  last available line of src/index.js (line 168). The spec's contract is
  \<open>nextDelay(current) = min(current * factor, max)\<close>.
\<close>

definition nextDelay :: "rat \<Rightarrow> rat" where
  "nextDelay current = min (current * factor BACKOFF) (max_ms BACKOFF)"

subsection \<open>scheduleRestartWithBackoff (lines 161 to 168)\<close>

text \<open>
  Modelled from the spec: the delay argument of the \<open>setTimeout\<close> call of line 166
  lies beyond the last available line. The retry comes after the current delay, the one
  the log line of line 163 announces.
\<close>

definition restartDelay :: "launcher \<Rightarrow> rat" where
  "restartDelay s = currentDelay s"

text \<open>
  Modelled from the spec: what \<open>scheduleRestartWithBackoff\<close> does after the
  \<open>setTimeout\<close> call lies beyond the last available line. The current delay advances
  by the Backoff Policy.
\<close>

definition advanceDelay :: "launcher \<Rightarrow> launcher" where
  "advanceDelay s = s\<lparr> currentDelay := nextDelay (currentDelay s) \<rparr>"

text \<open>
  Lines 163 to 166: the log line that announces \<open>currentDelay\<close> in rounded seconds,
  the cancellation of a timer that \<open>restartTimer\<close> still holds, and the new
  \<open>setTimeout\<close> whose handle is stored in \<open>restartTimer\<close>.
\<close>

definition scheduleRestartWithBackoff :: "reason \<Rightarrow> launcher \<Rightarrow> launcher" where
  "scheduleRestartWithBackoff r s0 =
     (let s1 = logger (LogScheduling r (Math_round (currentDelay s0 / 1000))) s0;
          s2 = (case restartTimer s1 of Some t \<Rightarrow> clearTimeout t s1 | None \<Rightarrow> s1);
          (t, s3) = setTimeout (restartDelay s2) s2;
          s4 = s3\<lparr> restartTimer := Some t \<rparr>
      in advanceDelay s4)"

subsection \<open>startBot (lines 118 to 155)\<close>

text \<open>
  Line 121: \<open>child && !child.killed && child.exitCode === null\<close>. A handle the
  launcher holds is always an index of \<open>procs\<close>; the bound keeps the test total on
  any state.
\<close>

definition childRunning :: "launcher \<Rightarrow> bool" where
  "childRunning s =
     (case child s of
        None \<Rightarrow> False
      | Some p \<Rightarrow> p < length (procs s) \<and> \<not> killed (procs s ! p) \<and> exitCode (procs s ! p) = None)"

text \<open>
  \<open>message\<close> is \<open>None\<close> for a call without argument; an empty string is falsy too.
  The \<open>close\<close> and \<open>exit\<close> handlers of lines 138 to 154 are attached to every process
  object this function obtains; they are \<open>onClose\<close> and \<open>onExit\<close> below.
  \<open>startBot\<close> has no \<open>try\<close> either: an exception of line 126 goes to its caller,
  before \<open>child\<close> is assigned.
\<close>

definition startBot :: "string option \<Rightarrow> spawn_outcome \<Rightarrow> launcher \<Rightarrow> outcome" where
  "startBot message answer s0 =
     (let s1 = (case message of
                  None \<Rightarrow> s0
                | Some m \<Rightarrow> if m \<noteq> [] then logger (LogStarting m) s0 else s0)
      in if childRunning s1 then Inr (logger LogAlreadyRunning s1)
         else (case spawnChild answer s1 of
                 Inl e \<Rightarrow> Inl (e, s1)
               | Inr (None, s2) \<Rightarrow>
                   Inr (scheduleRestartWithBackoff SpawnFailed (s2\<lparr> child := None \<rparr>))
               | Inr (Some p, s2) \<Rightarrow>
                   Inr (s2\<lparr> child := Some p, currentDelay := initial BACKOFF,
                           countRestart := 0 \<rparr>)))"

definition onClose :: "int option \<Rightarrow> string option \<Rightarrow> launcher \<Rightarrow> launcher" where
  "onClose code signal s0 =
     (let s1 = logger (LogChildClosed code signal) s0
      in if restarting s1 then logger LogRestartInProgress s1
         else scheduleRestartWithBackoff (ChildExited code) s1)"

definition onExit :: "int option \<Rightarrow> string option \<Rightarrow> launcher \<Rightarrow> launcher" where
  "onExit code signal s = logger (LogChildExited code signal) s"

subsection \<open>The timer callback (lines 166 to 168)\<close>

text \<open>
  Modelled from the spec: the callback's statements after line 167 lie beyond the last
  available line, which stops inside \<open>global.countRest\<close>. The restart counter is
  incremented and the deferred \<open>start()\<close> is made.
\<close>

definition restartCallbackRest :: "spawn_outcome \<Rightarrow> launcher \<Rightarrow> outcome" where
  "restartCallbackRest answer s =
     startBot None answer (s\<lparr> countRestart := countRestart s + 1 \<rparr>)"

text \<open>Line 167: the callback first forgets its own handle.\<close>

definition restartCallback :: "spawn_outcome \<Rightarrow> launcher \<Rightarrow> outcome" where
  "restartCallback answer s = restartCallbackRest answer (s\<lparr> restartTimer := None \<rparr>)"

subsection \<open>The HTTP listener's handlers (lines 47 to 56)\<close>

definition onListening :: "launcher \<Rightarrow> launcher" where
  "onListening s = logger LogServerRunning s"

definition onServerError :: "string \<Rightarrow> string \<Rightarrow> launcher \<Rightarrow> launcher" where
  "onServerError code message s =
     (if code = ''EACCES'' then logger LogPermissionDenied s
      else logger (LogServerError message) s)"

subsection \<open>Termination requests and shutdown\<close>

text \<open>
  Modelled from the spec: no call of \<open>kill\<close> is in the available lines.
  \<open>terminate(handle, signal)\<close> requests termination and does not guarantee immediate
  death; the runtime marks the object \<open>killed\<close>, and only the exit event tells that the
  process has stopped.
\<close>

definition terminate :: "nat \<Rightarrow> launcher \<Rightarrow> launcher" where
  "terminate p s =
     (if p < length (procs s) then s\<lparr> procs := (procs s)[p := (procs s ! p)\<lparr> killed := True \<rparr>] \<rparr>
      else s)"

text \<open>
  Modelled from the spec: the signal handlers are beyond the last available line.
  \<open>shutdown\<close> enters the shutting-down mode (the flag \<open>restarting\<close> that line 142
  tests), cancels a pending restart timer, and terminates a child that is alive.
\<close>

definition shutdown :: "launcher \<Rightarrow> launcher" where
  "shutdown s0 =
     (let s1 = s0\<lparr> restarting := True \<rparr>;
          s2 = (case restartTimer s1 of
                  Some t \<Rightarrow> (clearTimeout t s1)\<lparr> restartTimer := None \<rparr>
                | None \<Rightarrow> s1)
      in case child s2 of
           None \<Rightarrow> s2
         | Some p \<Rightarrow> if childRunning s2 then terminate p s2 else s2)"

subsection \<open>Events and runs\<close>

text \<open>
  \<open>ProcEnded\<close> is the runtime's own bookkeeping when a child process has ended: it
  stores the exit code, or the signal that ended the process, in the object before it
  emits \<open>exit\<close> (or \<open>error\<close>, when the process could not be started) and later
  \<open>close\<close>; a process ends once. A timer fires only while it is armed, and is disarmed
  by firing. \<open>StartBot\<close> is a call of \<open>startBot\<close> from the top level of the module.

  No callback of the launcher catches an exception, so one that \<open>startBot\<close> throws
  leaves the callback that called it; the runtime then ends the launcher, and the run
  stops with that exception.
\<close>

datatype event =
    StartBot "string option" spawn_outcome
  | TimerFired nat spawn_outcome
  | ProcEnded nat "int option" "string option"
  | ProcClose nat "int option" "string option"
  | ProcExit nat "int option" "string option"
  | ProcError nat string
  | ProcSpawn nat
  | ProcStdout nat string
  | ProcStderr nat string
  | Terminate nat
  | Shutdown
  | ServerListening
  | ServerError string string

definition hasProc :: "nat \<Rightarrow> launcher \<Rightarrow> bool" where
  "hasProc p s = (p < length (procs s))"

text \<open>The operating-system process behind an object is alive until the runtime has seen it end.\<close>

definition processAlive :: "proc \<Rightarrow> bool" where
  "processAlive q = (exitCode q = None \<and> signalCode q = None)"

fun step :: "launcher \<Rightarrow> event \<Rightarrow> outcome" where
  "step s (StartBot message answer) = startBot message answer s"
| "step s (TimerFired t answer) =
     (if t \<in> set (pending s)
      then restartCallback answer (s\<lparr> pending := removeAll t (pending s) \<rparr>)
      else Inr s)"
| "step s (ProcEnded p code signal) =
     Inr (if hasProc p s \<and> processAlive (procs s ! p)
          then s\<lparr> procs := (procs s)[p := (procs s ! p)\<lparr> exitCode := code, signalCode := signal \<rparr>] \<rparr>
          else s)"
| "step s (ProcClose p code signal) = Inr (if hasProc p s then onClose code signal s else s)"
| "step s (ProcExit p code signal) = Inr (if hasProc p s then onExit code signal s else s)"
| "step s (ProcError p message) =
     Inr (if hasProc p s then logger (LogChildError message) s else s)"
| "step s (ProcSpawn p) = Inr (if hasProc p s then logger (LogChildSpawned p) s else s)"
| "step s (ProcStdout p text) = Inr (if hasProc p s then logger (LogChildStdout text) s else s)"
| "step s (ProcStderr p text) = Inr (if hasProc p s then logger (LogChildStderr text) s else s)"
| "step s (Terminate p) = Inr (terminate p s)"
| "step s Shutdown = Inr (shutdown s)"
| "step s ServerListening = Inr (onListening s)"
| "step s (ServerError code message) = Inr (onServerError code message s)"

fun run :: "launcher \<Rightarrow> event list \<Rightarrow> outcome" where
  "run s [] = Inr s"
| "run s (e # es) = (case step s e of Inl x \<Rightarrow> Inl x | Inr s' \<Rightarrow> run s' es)"

text \<open>
  The state a call or a run ends in (the state at the throw, if it threw), and the
  exception, if any.
\<close>

definition final :: "outcome \<Rightarrow> launcher" where
  "final r = (case r of Inl (e, s) \<Rightarrow> s | Inr s \<Rightarrow> s)"

definition thrown :: "outcome \<Rightarrow> error option" where
  "thrown r = (case r of Inl (e, s) \<Rightarrow> Some e | Inr s \<Rightarrow> None)"

subsection \<open>Properties of states and runs\<close>

text \<open>A delay lies between the configured bounds.\<close>

definition inRange :: "rat \<Rightarrow> bool" where
  "inRange d = (initial BACKOFF \<le> d \<and> d \<le> max_ms BACKOFF)"

definition delayInv :: "launcher \<Rightarrow> bool" where
  "delayInv s = (inRange (currentDelay s) \<and> list_all inRange (timers s))"

text \<open>The armed timers are exactly the one \<open>restartTimer\<close> holds, if it holds one.\<close>

definition timerInv :: "launcher \<Rightarrow> bool" where
  "timerInv s = (pending s = (case restartTimer s of None \<Rightarrow> [] | Some t \<Rightarrow> [t]))"

text \<open>
  What line 121 takes for a running child: an object that has not been sent a signal
  and has no exit code. \<open>childInv\<close>: the only such object is the one \<open>child\<close> holds.
\<close>

definition regarded :: "proc \<Rightarrow> bool" where
  "regarded q = (\<not> killed q \<and> exitCode q = None)"

definition childInv :: "launcher \<Rightarrow> bool" where
  "childInv s = (\<forall>i < length (procs s). regarded (procs s ! i) \<longrightarrow> child s = Some i)"

text \<open>Everything in the state but the log.\<close>

definition supervision ::
  "launcher \<Rightarrow> proc list \<times> rat list \<times> nat list \<times> int \<times> nat option \<times> bool \<times> rat \<times> nat option" where
  "supervision s =
     (procs s, timers s, pending s, countRestart s, child s, restarting s, currentDelay s,
      restartTimer s)"

text \<open>The same of an outcome, with the exception it may hold.\<close>

definition view ::
  "outcome \<Rightarrow> error option \<times> proc list \<times> rat list \<times> nat list \<times> int \<times> nat option \<times> bool \<times> rat
     \<times> nat option" where
  "view r = (thrown r, supervision (final r))"

text \<open>Events other than a direct call of \<open>startBot\<close>.\<close>

fun notStartBot :: "event \<Rightarrow> bool" where
  "notStartBot (StartBot _ _) = False"
| "notStartBot _ = True"

text \<open>What line 119 logs for the argument of \<open>startBot\<close>.\<close>

definition announced :: "string option \<Rightarrow> log_entry list" where
  "announced message =
     (case message of None \<Rightarrow> [] | Some m \<Rightarrow> if m \<noteq> [] then [LogStarting m] else [])"

text \<open>
  One event either leaves delay and timers alone, or arms one timer with the current
  delay and advances the delay, or resets the delay while a process is spawned.
\<close>

definition quiet :: "launcher \<Rightarrow> launcher \<Rightarrow> bool" where
  "quiet s s' = (timers s' = timers s \<and> currentDelay s' = currentDelay s)"

definition armed :: "launcher \<Rightarrow> launcher \<Rightarrow> bool" where
  "armed s s' =
     (timers s' = timers s @ [currentDelay s] \<and> currentDelay s' = nextDelay (currentDelay s))"

definition respawned :: "launcher \<Rightarrow> launcher \<Rightarrow> bool" where
  "respawned s s' =
     (timers s' = timers s \<and> currentDelay s' = initial BACKOFF
      \<and> length (procs s') = Suc (length (procs s)))"

section \<open>Auxiliary facts\<close>

lemmas launcher_defs = logger_def setTimeout_def clearTimeout_def spawnChild_def
  scheduleRestartWithBackoff_def restartDelay_def advanceDelay_def startBot_def onClose_def
  onExit_def restartCallback_def restartCallbackRest_def
  onListening_def onServerError_def terminate_def shutdown_def hasProc_def childRunning_def
  processAlive_def initState_def nextDelay_def BACKOFF_def Let_def final_def thrown_def

lemma final_simps [simp]: "final (Inr s) = s" "final (Inl (e, s)) = s"
  by (simp_all add: final_def)

lemma thrown_simps [simp]: "thrown (Inr s) = None" "thrown (Inl (e, s)) = Some e"
  by (simp_all add: thrown_def)

lemma logger_fields [simp]:
  "procs (logger e s) = procs s"
  "child (logger e s) = child s"
  "restarting (logger e s) = restarting s"
  "countRestart (logger e s) = countRestart s"
  "timers (logger e s) = timers s"
  "pending (logger e s) = pending s"
  "restartTimer (logger e s) = restartTimer s"
  "currentDelay (logger e s) = currentDelay s"
  "logged (logger e s) = logged s @ [e]"
  by (simp_all add: logger_def)

lemma schedule_fields [simp]:
  "procs (scheduleRestartWithBackoff r s) = procs s"
  "child (scheduleRestartWithBackoff r s) = child s"
  "restarting (scheduleRestartWithBackoff r s) = restarting s"
  "countRestart (scheduleRestartWithBackoff r s) = countRestart s"
  "timers (scheduleRestartWithBackoff r s) = timers s @ [currentDelay s]"
  "restartTimer (scheduleRestartWithBackoff r s) = Some (length (timers s))"
  "currentDelay (scheduleRestartWithBackoff r s) = nextDelay (currentDelay s)"
  "logged (scheduleRestartWithBackoff r s) =
     logged s @ [LogScheduling r (Math_round (currentDelay s / 1000))]"
  by (simp_all add: scheduleRestartWithBackoff_def restartDelay_def advanceDelay_def logger_def
        setTimeout_def clearTimeout_def
        Let_def split: option.splits)

lemma schedule_pending:
  "pending (scheduleRestartWithBackoff r s) =
     (case restartTimer s of None \<Rightarrow> pending s | Some t \<Rightarrow> removeAll t (pending s))
       @ [length (timers s)]"
  by (simp add: scheduleRestartWithBackoff_def restartDelay_def advanceDelay_def logger_def
        setTimeout_def clearTimeout_def
        Let_def split: option.splits)

lemma childRunning_cong:
  "procs s' = procs s \<Longrightarrow> child s' = child s \<Longrightarrow> childRunning s' = childRunning s"
  by (cases "child s") (simp_all add: childRunning_def)

lemma childRunning_logger [simp]: "childRunning (logger e s) = childRunning s"
  by (rule childRunning_cong) simp_all

text \<open>The four ways through \<open>startBot\<close>.\<close>

lemma startBot_skip:
  assumes "childRunning s"
  shows "startBot m a s = Inr (s\<lparr> logged := logged s @ announced m @ [LogAlreadyRunning] \<rparr>)"
proof (cases m)
  case None
  then show ?thesis using assms by (simp add: startBot_def announced_def logger_def)
next
  case (Some t)
  then show ?thesis using assms
    by (simp add: startBot_def announced_def Let_def)
qed

lemma startBot_fail:
  assumes "\<not> childRunning s"
  shows "startBot m ScriptMissing s =
     Inr (scheduleRestartWithBackoff SpawnFailed
       (s\<lparr> logged := logged s @ announced m @ [LogScriptNotFound], child := None \<rparr>))"
proof (cases m)
  case None
  then show ?thesis using assms
    by (simp add: startBot_def announced_def spawnChild_def logger_def)
next
  case (Some t)
  then show ?thesis using assms
    by (simp add: startBot_def announced_def spawnChild_def Let_def) (simp add: logger_def)
qed

lemma startBot_ok:
  assumes "\<not> childRunning s"
  shows "startBot m SpawnReturns s =
     Inr (s\<lparr> procs := procs s @ [\<lparr> killed = False, exitCode = None, signalCode = None \<rparr>],
        logged := logged s @ announced m,
        child := Some (length (procs s)), currentDelay := initial BACKOFF, countRestart := 0 \<rparr>)"
proof (cases m)
  case None
  then show ?thesis using assms
    by (simp add: startBot_def announced_def spawnChild_def)
next
  case (Some t)
  then show ?thesis using assms
    by (simp add: startBot_def announced_def spawnChild_def Let_def)
qed

lemma startBot_throws:
  assumes "\<not> childRunning s"
  shows "startBot m (SpawnThrows c) s =
     Inl (SpawnError c, s\<lparr> logged := logged s @ announced m \<rparr>)"
proof (cases m)
  case None
  then show ?thesis using assms
    by (simp add: startBot_def announced_def spawnChild_def)
next
  case (Some t)
  then show ?thesis using assms
    by (simp add: startBot_def announced_def spawnChild_def Let_def)
qed

text \<open>A property that every step keeps holds at the end of every run.\<close>

lemma final_run_Cons:
  "final (run s (e # es)) =
     (case step s e of Inl x \<Rightarrow> final (step s e) | Inr s' \<Rightarrow> final (run s' es))"
  by (cases "step s e") auto

lemma run_invariant:
  assumes "P s" and "\<And>s e. P s \<Longrightarrow> P (final (step s e))"
  shows "P (final (run s es))"
  using assms(1)
proof (induction es arbitrary: s)
  case Nil
  then show ?case by simp
next
  case (Cons e es)
  from Cons.prems have st: "P (final (step s e))" by (rule assms(2))
  show ?case
  proof (cases "step s e")
    case (Inl x)
    then show ?thesis using st by (simp add: final_run_Cons)
  next
    case (Inr s')
    then have "P s'" using st by simp
    then have "P (final (run s' es))" by (rule Cons.IH)
    then show ?thesis using Inr by simp
  qed
qed

subsection \<open>Processes are only ever added\<close>

lemma startBot_procs_cases:
  "(procs (final (startBot m a s)) = procs s \<and> \<not> (a = SpawnReturns \<and> \<not> childRunning s)) \<or>
   (procs (final (startBot m a s))
      = procs s @ [\<lparr> killed = False, exitCode = None, signalCode = None \<rparr>]
      \<and> a = SpawnReturns \<and> \<not> childRunning s)"
proof (cases "childRunning s")
  case True
  then show ?thesis by (simp add: startBot_skip)
next
  case False
  then show ?thesis by (cases a) (simp_all add: startBot_ok startBot_fail startBot_throws)
qed

lemma terminate_fields [simp]:
  "length (procs (terminate p s)) = length (procs s)"
  "child (terminate p s) = child s"
  "restarting (terminate p s) = restarting s"
  "countRestart (terminate p s) = countRestart s"
  "timers (terminate p s) = timers s"
  "pending (terminate p s) = pending s"
  "restartTimer (terminate p s) = restartTimer s"
  "currentDelay (terminate p s) = currentDelay s"
  "logged (terminate p s) = logged s"
  by (simp_all add: terminate_def)

lemma shutdown_fields [simp]:
  "length (procs (shutdown s)) = length (procs s)"
  "child (shutdown s) = child s"
  "restarting (shutdown s) = True"
  "countRestart (shutdown s) = countRestart s"
  "timers (shutdown s) = timers s"
  "restartTimer (shutdown s) = None"
  "currentDelay (shutdown s) = currentDelay s"
  "logged (shutdown s) = logged s"
  "pending (shutdown s) =
     (case restartTimer s of None \<Rightarrow> pending s | Some t \<Rightarrow> removeAll t (pending s))"
  by (simp_all add: shutdown_def Let_def clearTimeout_def split: option.splits)

lemma onClose_fields [simp]:
  "procs (onClose c sg s) = procs s"
  "child (onClose c sg s) = child s"
  "restarting (onClose c sg s) = restarting s"
  "countRestart (onClose c sg s) = countRestart s"
  by (simp_all add: onClose_def Let_def)

lemma onClose_restarting:
  "restarting s \<Longrightarrow>
     onClose c sg s = s\<lparr> logged := logged s @ [LogChildClosed c sg, LogRestartInProgress] \<rparr>"
  by (simp add: onClose_def Let_def logger_def)

lemma onClose_schedules:
  "\<not> restarting s \<Longrightarrow>
     onClose c sg s = scheduleRestartWithBackoff (ChildExited c) (logger (LogChildClosed c sg) s)"
  by (simp add: onClose_def Let_def)

lemma step_procs_length: "length (procs s) \<le> length (procs (final (step s e)))"
proof (cases e)
  case (StartBot m a)
  then show ?thesis using startBot_procs_cases [of m a s] by auto
next
  case (TimerFired t a)
  then show ?thesis
    using startBot_procs_cases
      [of None a "s\<lparr> pending := removeAll t (pending s), restartTimer := None,
                      countRestart := countRestart s + 1 \<rparr>"]
    by (auto simp: restartCallback_def restartCallbackRest_def)
qed (simp_all add: onExit_def onListening_def onServerError_def)

lemma run_procs_length: "length (procs s) \<le> length (procs (final (run s es)))"
proof (rule run_invariant [where P = "\<lambda>s' :: launcher. length (procs s) \<le> length (procs s')"])
  show "length (procs s) \<le> length (procs s)" by simp
next
  fix s' :: launcher and e
  assume "length (procs s) \<le> length (procs s')"
  also have "\<dots> \<le> length (procs (final (step s' e)))" by (rule step_procs_length)
  finally show "length (procs s) \<le> length (procs (final (step s' e)))" .
qed

subsection \<open>The delay stays in range and grows until a spawn succeeds\<close>

lemma nextDelay_inRange: "inRange d \<Longrightarrow> inRange (nextDelay d)"
  by (simp add: inRange_def nextDelay_def BACKOFF_def min_def)

lemma nextDelay_grows: "inRange d \<Longrightarrow> d \<le> nextDelay d"
  by (simp add: inRange_def nextDelay_def BACKOFF_def min_def)

lemma inRange_initial: "inRange (initial BACKOFF)"
  by (simp add: inRange_def BACKOFF_def)

lemma startBot_delay_cases:
  assumes "timers s0 = timers s" and "currentDelay s0 = currentDelay s"
    and "length (procs s0) = length (procs s)"
  shows "(quiet s (final (startBot m a s0))
            \<and> length (procs (final (startBot m a s0))) = length (procs s))
       \<or> (armed s (final (startBot m a s0))
            \<and> length (procs (final (startBot m a s0))) = length (procs s))
       \<or> respawned s (final (startBot m a s0))"
proof (cases "childRunning s0")
  case True
  then show ?thesis using assms by (simp add: startBot_skip quiet_def)
next
  case False
  then show ?thesis using assms
    by (cases a)
       (simp_all add: startBot_ok startBot_fail startBot_throws quiet_def armed_def
          respawned_def)
qed

lemma step_delay_cases:
  "(quiet s (final (step s e)) \<and> length (procs (final (step s e))) = length (procs s))
   \<or> (armed s (final (step s e)) \<and> length (procs (final (step s e))) = length (procs s))
   \<or> respawned s (final (step s e))"
proof (cases e)
  case (StartBot m a)
  then show ?thesis using startBot_delay_cases [of s s m a] by simp
next
  case (TimerFired t a)
  show ?thesis
  proof (cases "t \<in> set (pending s)")
    case True
    then show ?thesis
      using TimerFired startBot_delay_cases
        [of "s\<lparr> pending := removeAll t (pending s), restartTimer := None,
                 countRestart := countRestart s + 1 \<rparr>" s None a]
      by (simp add: restartCallback_def restartCallbackRest_def)
  next
    case False
    then show ?thesis using TimerFired by (simp add: quiet_def)
  qed
next
  case (ProcClose p c sg)
  show ?thesis
  proof (cases "restarting s")
    case True
    then show ?thesis using ProcClose by (simp add: quiet_def onClose_restarting)
  next
    case False
    then show ?thesis using ProcClose by (simp add: quiet_def armed_def onClose_schedules)
  qed
qed (simp_all add: quiet_def onExit_def onListening_def onServerError_def)

lemma step_delayInv:
  assumes "delayInv s"
  shows "delayInv (final (step s e))"
  using step_delay_cases [of s e] assms
  by (auto simp: delayInv_def quiet_def armed_def respawned_def nextDelay_inRange
        inRange_initial)

lemma run_delayInv: "delayInv s \<Longrightarrow> delayInv (final (run s es))"
  by (rule run_invariant) (simp_all add: step_delayInv)

lemma init_delayInv: "delayInv (initState g)"
  by (simp add: delayInv_def initState_def inRange_initial)

lemma run_no_spawn_sorted:
  assumes "delayInv s" and "length (procs (final (run s es))) = length (procs s)"
  shows "\<exists>ds. timers (final (run s es)) = timers s @ ds \<and> sorted ds
           \<and> list_all (\<lambda>d. currentDelay s \<le> d) ds"
  using assms
proof (induction es arbitrary: s)
  case Nil
  then show ?case by simp
next
  case (Cons e es)
  let ?s' = "final (step s e)"
  have le1: "length (procs s) \<le> length (procs ?s')" by (rule step_procs_length)
  have inv': "delayInv ?s'" using Cons.prems(1) by (rule step_delayInv)
  have grow: "currentDelay s \<le> nextDelay (currentDelay s)"
    using Cons.prems(1) by (simp add: delayInv_def nextDelay_grows)
  have rest: "\<exists>ds. timers (final (run s (e # es))) = timers ?s' @ ds \<and> sorted ds
           \<and> list_all (\<lambda>d. currentDelay ?s' \<le> d) ds
           \<and> length (procs ?s') = length (procs s)"
  proof (cases "step s e")
    case (Inl x)
    then have "final (run s (e # es)) = ?s'" by (simp add: final_run_Cons)
    then show ?thesis using Cons.prems(2) by simp
  next
    case (Inr s')
    then have s': "?s' = s'" and r: "final (run s (e # es)) = final (run s' es)" by simp_all
    have le2: "length (procs s') \<le> length (procs (final (run s' es)))"
      by (rule run_procs_length)
    from Cons.prems(2) le1 le2 r s' have same: "length (procs s') = length (procs s)"
      and same': "length (procs (final (run s' es))) = length (procs s')" by simp_all
    from Cons.IH [OF _ same'] inv' s' obtain ds where
      "timers (final (run s' es)) = timers s' @ ds" "sorted ds"
      "list_all (\<lambda>d. currentDelay s' \<le> d) ds" by auto
    then show ?thesis using r s' same by auto
  qed
  then obtain ds where
    ds: "timers (final (run s (e # es))) = timers ?s' @ ds" "sorted ds"
        "list_all (\<lambda>d. currentDelay ?s' \<le> d) ds"
    and same: "length (procs ?s') = length (procs s)" by blast
  from step_delay_cases [of s e] same
  consider "quiet s ?s'" | "armed s ?s'" by (auto simp: respawned_def)
  then show ?case
  proof cases
    case 1
    then show ?thesis using ds by (auto simp: quiet_def)
  next
    case 2
    have "list_all (\<lambda>d. currentDelay s \<le> d) ds"
      using ds(3) 2 grow by (auto simp: armed_def list_all_iff)
    moreover have "timers (final (run s (e # es))) = timers s @ (currentDelay s # ds)"
      using ds(1) 2 by (simp add: armed_def)
    moreover have "sorted (currentDelay s # ds)"
      using ds(2) calculation(1) by (simp add: list_all_iff)
    ultimately show ?thesis by (intro exI [of _ "currentDelay s # ds"]) simp
  qed
qed

subsection \<open>One restart timer\<close>

lemma schedule_timerInv:
  "timerInv s \<Longrightarrow> pending (scheduleRestartWithBackoff r s) = [length (timers s)]"
  by (simp add: schedule_pending timerInv_def split: option.splits)

lemma timerInv_cong:
  "pending s' = pending s \<Longrightarrow> restartTimer s' = restartTimer s \<Longrightarrow> timerInv s' = timerInv s"
  by (simp add: timerInv_def)

lemma startBot_timerInv:
  assumes "timerInv s"
  shows "timerInv (final (startBot m a s))"
proof (cases "childRunning s")
  case True
  then show ?thesis using assms by (simp add: startBot_skip timerInv_def)
next
  case False
  show ?thesis
  proof (cases a)
    case SpawnReturns
    then show ?thesis using assms False by (simp add: startBot_ok timerInv_def)
  next
    case (SpawnThrows c)
    then show ?thesis using assms False by (simp add: startBot_throws timerInv_def)
  next
    case ScriptMissing
    let ?s0 = "s\<lparr> logged := logged s @ announced m @ [LogScriptNotFound], child := None \<rparr>"
    have "timerInv ?s0" using assms by (simp add: timerInv_def)
    then have "pending (scheduleRestartWithBackoff SpawnFailed ?s0) = [length (timers ?s0)]"
      by (rule schedule_timerInv)
    then show ?thesis using ScriptMissing False by (simp add: startBot_fail timerInv_def)
  qed
qed

lemma step_timerInv:
  assumes "timerInv s"
  shows "timerInv (final (step s e))"
proof (cases e)
  case (StartBot m a)
  then show ?thesis using assms startBot_timerInv by simp
next
  case (TimerFired t a)
  show ?thesis
  proof (cases "t \<in> set (pending s)")
    case True
    with assms have "pending s = [t]" by (auto simp: timerInv_def split: option.splits)
    then have "timerInv (s\<lparr> pending := removeAll t (pending s), restartTimer := None,
                             countRestart := countRestart s + 1 \<rparr>)"
      by (simp add: timerInv_def)
    then show ?thesis using TimerFired True startBot_timerInv
      by (simp add: restartCallback_def restartCallbackRest_def)
  next
    case False
    then show ?thesis using TimerFired assms by simp
  qed
next
  case (ProcClose p c sg)
  show ?thesis
  proof (cases "restarting s")
    case True
    then show ?thesis using ProcClose assms by (simp add: onClose_restarting timerInv_def)
  next
    case False
    have "timerInv (logger (LogChildClosed c sg) s)" using assms by (simp add: timerInv_def)
    then have "pending (onClose c sg s) = [length (timers s)]"
      using False schedule_timerInv [of "logger (LogChildClosed c sg) s" "ChildExited c"]
      by (simp add: onClose_schedules)
    then show ?thesis using ProcClose assms False
      by (simp add: onClose_schedules timerInv_def)
  qed
next
  case Shutdown
  then show ?thesis using assms by (auto simp: timerInv_def split: option.splits)
next
  case (ProcEnded p c sg)
  then show ?thesis using assms by (auto simp: timerInv_def)
qed (use assms in \<open>simp_all add: timerInv_def onExit_def onListening_def onServerError_def
       terminate_def\<close>)

lemma run_timerInv: "timerInv s \<Longrightarrow> timerInv (final (run s es))"
  by (rule run_invariant) (simp_all add: step_timerInv)

lemma init_timerInv: "timerInv (initState g)"
  by (simp add: timerInv_def initState_def)

subsection \<open>After shutdown\<close>

lemma step_after_shutdown:
  assumes "restarting s" and "pending s = []" and "notStartBot e"
  shows "restarting (final (step s e)) \<and> pending (final (step s e)) = []
         \<and> length (procs (final (step s e))) = length (procs s)"
proof (cases e)
  case (ProcClose p c sg)
  then show ?thesis using assms by (simp add: onClose_restarting)
next
  case Shutdown
  then show ?thesis using assms by (simp split: option.splits)
qed (use assms in \<open>simp_all add: onExit_def onListening_def onServerError_def\<close>)

lemma run_after_shutdown:
  assumes "restarting s" and "pending s = []" and "list_all notStartBot es"
  shows "length (procs (final (run s es))) = length (procs s)"
  using assms
proof (induction es arbitrary: s)
  case Nil
  then show ?case by simp
next
  case (Cons e es)
  from Cons.prems have e: "notStartBot e" and es: "list_all notStartBot es" by simp_all
  note st = step_after_shutdown [OF Cons.prems(1,2) e]
  show ?case
  proof (cases "step s e")
    case (Inl x)
    then show ?thesis using st by (simp add: final_run_Cons)
  next
    case (Inr s')
    with st have "restarting s'" "pending s' = []" "length (procs s') = length (procs s)"
      by simp_all
    with Cons.IH [of s'] es Inr show ?thesis by simp
  qed
qed

lemma run_after_shutdown_returns:
  assumes "restarting s" and "pending s = []" and "list_all notStartBot es"
  shows "thrown (run s es) = None"
  using assms
proof (induction es arbitrary: s)
  case Nil
  then show ?case by simp
next
  case (Cons e es)
  from Cons.prems have e: "notStartBot e" and es: "list_all notStartBot es" by simp_all
  note st = step_after_shutdown [OF Cons.prems(1,2) e]
  have "thrown (step s e) = None" using e Cons.prems(2) by (cases e) simp_all
  then obtain s' where s': "step s e = Inr s'" by (cases "step s e") auto
  with st have "restarting s'" "pending s' = []" by simp_all
  with Cons.IH [of s'] es s' show ?case by simp
qed

subsection \<open>Which child the launcher regards as running\<close>

lemma childInv_cong:
  "procs s' = procs s \<Longrightarrow> child s' = child s \<Longrightarrow> childInv s' = childInv s"
  by (simp add: childInv_def)

lemma not_running_no_regarded:
  assumes "childInv s" and "\<not> childRunning s" and "i < length (procs s)"
  shows "\<not> regarded (procs s ! i)"
proof
  assume r: "regarded (procs s ! i)"
  with assms(1,3) have "child s = Some i" by (simp add: childInv_def)
  with r assms(3) have "childRunning s" by (simp add: childRunning_def regarded_def)
  with assms(2) show False by simp
qed

lemma startBot_childInv:
  assumes "childInv s"
  shows "childInv (final (startBot m a s))"
proof (cases "childRunning s")
  case True
  then show ?thesis using assms by (simp add: startBot_skip childInv_def)
next
  case False
  note nr = not_running_no_regarded [OF assms False]
  show ?thesis
  proof (cases a)
    case SpawnReturns
    then show ?thesis
      using nr False by (auto simp: startBot_ok childInv_def nth_append less_Suc_eq)
  next
    case (SpawnThrows c)
    then show ?thesis
      using nr False by (auto simp: startBot_throws childInv_def)
  next
    case ScriptMissing
    then show ?thesis
      using nr False by (auto simp: startBot_fail childInv_def)
  qed
qed

lemma update_childInv:
  assumes "childInv s" and "p < length (procs s)" and "regarded q \<longrightarrow> regarded (procs s ! p)"
  shows "childInv (s\<lparr> procs := (procs s)[p := q] \<rparr>)"
  using assms by (auto simp: childInv_def nth_list_update)

lemma terminate_childInv: "childInv s \<Longrightarrow> childInv (terminate p s)"
  unfolding terminate_def by (auto intro!: update_childInv simp: regarded_def)

lemma shutdown_procs:
  "procs (shutdown s) = procs s \<or> (\<exists>p. procs (shutdown s) = procs (terminate p s))"
  by (auto simp: shutdown_def Let_def clearTimeout_def terminate_def childRunning_def
        split: option.splits)

lemma shutdown_childInv:
  assumes "childInv s"
  shows "childInv (shutdown s)"
proof -
  from shutdown_procs [of s] consider
    "procs (shutdown s) = procs s" | p where "procs (shutdown s) = procs (terminate p s)"
    by blast
  then show ?thesis
  proof cases
    case 1
    then have "childInv (shutdown s) = childInv s" by (intro childInv_cong) simp_all
    then show ?thesis using assms by simp
  next
    case 2
    then have "childInv (shutdown s) = childInv (terminate p s)"
      by (intro childInv_cong) simp_all
    then show ?thesis using terminate_childInv [OF assms] by simp
  qed
qed

lemma step_childInv:
  assumes inv: "childInv s"
  shows "childInv (final (step s e))"
proof (cases e)
  case (StartBot m a)
  then show ?thesis using inv startBot_childInv by simp
next
  case (TimerFired t a)
  let ?s' = "s\<lparr> pending := removeAll t (pending s), restartTimer := None,
                 countRestart := countRestart s + 1 \<rparr>"
  have "childInv ?s'" using inv by (simp add: childInv_def)
  then have "childInv (final (startBot None a ?s'))" by (rule startBot_childInv)
  then show ?thesis using TimerFired inv
    by (simp add: restartCallback_def restartCallbackRest_def)
next
  case (ProcEnded p c sg)
  show ?thesis
  proof (cases "hasProc p s \<and> processAlive (procs s ! p)")
    case True
    then have "childInv (s\<lparr> procs := (procs s)[p := (procs s ! p)\<lparr> exitCode := c, signalCode := sg \<rparr>] \<rparr>)"
      using inv by (intro update_childInv) (simp_all add: hasProc_def regarded_def processAlive_def)
    then show ?thesis using ProcEnded True by simp
  next
    case False
    then have "final (step s e) = s" using ProcEnded by auto
    then show ?thesis using inv by simp
  qed
next
  case (ProcClose p c sg)
  have "childInv (onClose c sg s) = childInv s" by (intro childInv_cong) simp_all
  then show ?thesis using ProcClose inv by simp
next
  case (Terminate p)
  then show ?thesis using inv terminate_childInv by simp
next
  case Shutdown
  then show ?thesis using inv shutdown_childInv by simp
qed (use inv in \<open>simp_all add: childInv_def onExit_def onListening_def onServerError_def\<close>)

lemma run_childInv: "childInv s \<Longrightarrow> childInv (final (run s es))"
  by (rule run_invariant) (simp_all add: step_childInv)

lemma init_childInv: "childInv (initState g)"
  by (simp add: childInv_def initState_def)

lemma filter_at_most_one:
  assumes "\<And>i. i < length xs \<Longrightarrow> P (xs ! i) \<Longrightarrow> i = k"
  shows "length (filter P xs) \<le> 1"
proof -
  have "{i. i < length xs \<and> P (xs ! i)} \<subseteq> {k}" using assms by auto
  then have "card {i. i < length xs \<and> P (xs ! i)} \<le> card {k}"
    by (intro card_mono) simp_all
  then show ?thesis by (simp add: length_filter_conv_card)
qed

subsection \<open>The log is write-only\<close>

lemma supervision_eqD:
  assumes "supervision s = supervision s'"
  shows "procs s = procs s'" "timers s = timers s'" "pending s = pending s'"
    "countRestart s = countRestart s'" "child s = child s'" "restarting s = restarting s'"
    "currentDelay s = currentDelay s'" "restartTimer s = restartTimer s'"
  using assms by (simp_all add: supervision_def)

lemma supervision_logger [simp]: "supervision (logger e s) = supervision s"
  by (simp add: supervision_def)

lemma view_simps [simp]:
  "view (Inr s) = (None, supervision s)"
  "view (Inl (e, s)) = (Some e, supervision s)"
  by (simp_all add: view_def)

lemma supervision_schedule:
  "supervision s = supervision s' \<Longrightarrow>
     supervision (scheduleRestartWithBackoff r s) = supervision (scheduleRestartWithBackoff r' s')"
  by (simp add: supervision_def schedule_pending cong: option.case_cong)

lemma view_startBot:
  assumes "supervision s = supervision s'"
  shows "view (startBot m a s) = view (startBot m' a s')"
proof -
  note eq = supervision_eqD [OF assms]
  have run: "childRunning s = childRunning s'"
    using eq by (intro childRunning_cong) simp_all
  show ?thesis
  proof (cases "childRunning s")
    case True
    then show ?thesis using run assms by (simp add: startBot_skip supervision_def)
  next
    case False
    show ?thesis
    proof (cases a)
      case SpawnReturns
      then show ?thesis using run False assms by (simp add: startBot_ok supervision_def)
    next
      case (SpawnThrows c)
      then show ?thesis using run False assms by (simp add: startBot_throws supervision_def)
    next
      case ScriptMissing
      have "supervision (s\<lparr> logged := logged s @ announced m @ [LogScriptNotFound], child := None \<rparr>)
          = supervision (s'\<lparr> logged := logged s' @ announced m' @ [LogScriptNotFound], child := None \<rparr>)"
        using assms by (simp add: supervision_def)
      then show ?thesis using run False ScriptMissing
        by (simp add: startBot_fail supervision_schedule)
    qed
  qed
qed

lemma view_step:
  assumes "supervision s = supervision s'"
  shows "view (step s e) = view (step s' e)"
proof -
  note eq = supervision_eqD [OF assms]
  show ?thesis
  proof (cases e)
    case (StartBot m a)
    then show ?thesis using assms view_startBot by simp
  next
    case (TimerFired t a)
    have "supervision (s\<lparr> pending := removeAll t (pending s), restartTimer := None,
                         countRestart := countRestart s + 1 \<rparr>)
        = supervision (s'\<lparr> pending := removeAll t (pending s'), restartTimer := None,
                         countRestart := countRestart s' + 1 \<rparr>)"
      using assms by (simp add: supervision_def)
    then show ?thesis using TimerFired eq(3) assms
      by (simp add: restartCallback_def restartCallbackRest_def view_startBot)
  next
    case (ProcEnded p c sg)
    then show ?thesis using assms eq(1) by (simp add: hasProc_def) (simp add: supervision_def)
  next
    case (ProcClose p c sg)
    have "supervision (onClose c sg s) = supervision (onClose c sg s')"
    proof (cases "restarting s")
      case True
      then show ?thesis using eq(6) assms by (simp add: onClose_restarting supervision_def)
    next
      case False
      then show ?thesis using eq(6) assms
        by (simp add: onClose_schedules supervision_schedule)
    qed
    then show ?thesis using ProcClose eq(1) assms by (simp add: hasProc_def)
  next
    case (Terminate p)
    then show ?thesis using assms by (simp add: supervision_def terminate_def)
  next
    case Shutdown
    then show ?thesis using assms
      by (simp add: supervision_def shutdown_def Let_def clearTimeout_def childRunning_def
            terminate_def split: option.splits)
  qed (use assms eq(1) in \<open>simp_all add: hasProc_def onExit_def onListening_def onServerError_def\<close>)
qed

lemma view_run:
  "supervision s = supervision s' \<Longrightarrow> view (run s es) = view (run s' es)"
proof (induction es arbitrary: s s')
  case Nil
  then show ?case by simp
next
  case (Cons e es)
  from Cons.prems have v: "view (step s e) = view (step s' e)" by (rule view_step)
  show ?case
  proof (cases "step s e")
    case (Inl x)
    obtain err t where x: "x = (err, t)" by (cases x)
    with Inl v obtain t' where "step s' e = Inl (err, t')" "supervision t = supervision t'"
      by (cases "step s' e") auto
    then show ?thesis using Inl x by simp
  next
    case (Inr t)
    with v obtain t' where t': "step s' e = Inr t'" "supervision t = supervision t'"
      by (cases "step s' e") auto
    from t'(2) have "view (run t es) = view (run t' es)" by (rule Cons.IH)
    then show ?thesis using Inr t'(1) by simp
  qed
qed

subsection \<open>A missing script\<close>

text \<open>
  When the script is missing and no child is regarded as running, \<open>startBot\<close> returns,
  spawns nothing and arms a retry with the current delay; timers, armed timer and delay
  are then as the \<open>close\<close> handler of an exited child leaves them. When that retry
  fires and the script is still missing, the next retry is armed.
\<close>

lemma missing_script_schedules_retry:
  assumes "\<not> childRunning s"
  shows "thrown (startBot m ScriptMissing s) = None
         \<and> procs (final (startBot m ScriptMissing s)) = procs s
         \<and> child (final (startBot m ScriptMissing s)) = None
         \<and> restartTimer (final (startBot m ScriptMissing s)) = Some (length (timers s))
         \<and> length (timers s) \<in> set (pending (final (startBot m ScriptMissing s)))
         \<and> timers (final (startBot m ScriptMissing s)) = timers s @ [currentDelay s]
         \<and> currentDelay (final (startBot m ScriptMissing s)) = nextDelay (currentDelay s)
         \<and> restartTimer (final (step (final (startBot m ScriptMissing s))
               (TimerFired (length (timers s)) ScriptMissing)))
             = Some (Suc (length (timers s)))
         \<and> (\<not> restarting s \<longrightarrow>
               timers (onClose c sg s) = timers (final (startBot m ScriptMissing s))
             \<and> pending (onClose c sg s) = pending (final (startBot m ScriptMissing s))
             \<and> restartTimer (onClose c sg s) = restartTimer (final (startBot m ScriptMissing s))
             \<and> currentDelay (onClose c sg s)
                 = currentDelay (final (startBot m ScriptMissing s)))"
proof -
  let ?s1 = "final (startBot m ScriptMissing s)"
  have base: "thrown (startBot m ScriptMissing s) = None"
    "procs ?s1 = procs s" "child ?s1 = None"
    "restartTimer ?s1 = Some (length (timers s))"
    "length (timers s) \<in> set (pending ?s1)"
    "timers ?s1 = timers s @ [currentDelay s]"
    "currentDelay ?s1 = nextDelay (currentDelay s)"
    using assms by (simp_all add: startBot_fail schedule_pending)
  let ?s2 = "?s1\<lparr> pending := removeAll (length (timers s)) (pending ?s1),
                   restartTimer := None, countRestart := countRestart ?s1 + 1 \<rparr>"
  have "\<not> childRunning ?s2" using base(3) by (simp add: childRunning_def)
  then have "restartTimer (final (startBot None ScriptMissing ?s2)) = Some (length (timers ?s2))"
    by (simp add: startBot_fail)
  then have again: "restartTimer (final (step ?s1 (TimerFired (length (timers s)) ScriptMissing)))
      = Some (Suc (length (timers s)))"
    using base(5,6) by (simp add: restartCallback_def restartCallbackRest_def)
  have close: "timers (onClose c sg s) = timers ?s1 \<and> pending (onClose c sg s) = pending ?s1
      \<and> restartTimer (onClose c sg s) = restartTimer ?s1
      \<and> currentDelay (onClose c sg s) = currentDelay ?s1" if "\<not> restarting s"
    using that assms
    by (simp add: startBot_fail schedule_pending onClose_schedules cong: option.case_cong)
  show ?thesis using base again close by blast
qed

subsection \<open>A child ended by a signal\<close>

text \<open>
  The runtime leaves \<open>exitCode\<close> at \<open>null\<close> when a signal ends a process. If the
  launcher did not send that signal itself, line 121 goes on taking the child for
  running: the restart that the \<open>close\<close> handler scheduled finds it so and spawns
  nothing, and no timer is left.
\<close>

lemma signalled_child_not_restarted:
  "length (procs (final (run (initState None)
     [StartBot None SpawnReturns, ProcEnded 0 None (Some ''SIGKILL''),
      ProcExit 0 None (Some ''SIGKILL''), ProcClose 0 None (Some ''SIGKILL''),
      TimerFired 0 SpawnReturns]))) = 1
   \<and> pending (final (run (initState None)
     [StartBot None SpawnReturns, ProcEnded 0 None (Some ''SIGKILL''),
      ProcExit 0 None (Some ''SIGKILL''), ProcClose 0 None (Some ''SIGKILL''),
      TimerFired 0 SpawnReturns])) = []
   \<and> filter processAlive (procs (final (run (initState None)
     [StartBot None SpawnReturns, ProcEnded 0 None (Some ''SIGKILL''),
      ProcExit 0 None (Some ''SIGKILL''), ProcClose 0 None (Some ''SIGKILL''),
      TimerFired 0 SpawnReturns]))) = []"
  by (simp add: launcher_defs)

section \<open>The claims\<close>

subsection \<open>C1: the backoff policy and three consecutive failures\<close>

text \<open>
  C1, as the code has it. The next delay is \<open>min(d * 1.5, 60000)\<close>: a scheduled restart
  is armed with the current delay, which then advances by that formula. Three
  consecutive failed spawn attempts (the script is missing at the first call and at both
  retries) arm timers of 2000, 3000 and 4500 milliseconds, none above 60000.
\<close>

theorem backoff_policy_failed_spawns:
  "nextDelay d = min (d * (3 / 2)) 60000
   \<and> timers (scheduleRestartWithBackoff r s) = timers s @ [currentDelay s]
   \<and> currentDelay (scheduleRestartWithBackoff r s) = min (currentDelay s * (3 / 2)) 60000
   \<and> timers (final (run (initState g)
         [StartBot m ScriptMissing, TimerFired 0 ScriptMissing, TimerFired 1 ScriptMissing]))
       = [2000, 3000, 4500]
   \<and> Max (set (timers (final (run (initState g)
         [StartBot m ScriptMissing, TimerFired 0 ScriptMissing, TimerFired 1 ScriptMissing]))))
       \<le> max_ms BACKOFF"
proof -
  have t: "timers (final (run (initState g)
         [StartBot m ScriptMissing, TimerFired 0 ScriptMissing, TimerFired 1 ScriptMissing]))
       = [2000, 3000, 4500]"
    by (cases m) (simp_all add: launcher_defs)
  show ?thesis
    unfolding t by (simp add: nextDelay_def BACKOFF_def)
qed

text \<open>
  C1 as stated fails for exits: a child that exits was spawned before, and line 135 put
  the delay back to 2000 at that spawn. Three children in a row that each exit with
  code 1 are each restarted after 2000 milliseconds.
\<close>

theorem three_exits_reset_delay_counterexample:
  "timers (final (run (initState None)
     [StartBot None SpawnReturns,
      ProcEnded 0 (Some 1) None, ProcExit 0 (Some 1) None, ProcClose 0 (Some 1) None,
      TimerFired 0 SpawnReturns,
      ProcEnded 1 (Some 1) None, ProcExit 1 (Some 1) None, ProcClose 1 (Some 1) None,
      TimerFired 1 SpawnReturns,
      ProcEnded 2 (Some 1) None, ProcExit 2 (Some 1) None, ProcClose 2 (Some 1) None]))
   = [2000, 2000, 2000]
   \<and> timers (final (run (initState None)
     [StartBot None SpawnReturns,
      ProcEnded 0 (Some 1) None, ProcExit 0 (Some 1) None, ProcClose 0 (Some 1) None,
      TimerFired 0 SpawnReturns,
      ProcEnded 1 (Some 1) None, ProcExit 1 (Some 1) None, ProcClose 1 (Some 1) None,
      TimerFired 1 SpawnReturns,
      ProcEnded 2 (Some 1) None, ProcExit 2 (Some 1) None, ProcClose 2 (Some 1) None]))
   \<noteq> [2000, 3000, 4500]"
  by (simp add: launcher_defs)

subsection \<open>C2: the delay is bounded, and grows while nothing is spawned\<close>

text \<open>
  C2 as stated fails for its first half. A child exits and is restarted after 2000
  milliseconds; the retry fails twice for a missing script (3000, then 4500); the third
  retry spawns a child, which exits at once, and its restart is scheduled with 2000
  again: line 135 has reset the delay at the spawn, although no child has run in between.
\<close>

theorem delay_drops_after_respawn_counterexample:
  "timers (final (run (initState None)
     [StartBot None SpawnReturns,
      ProcEnded 0 (Some 1) None, ProcExit 0 (Some 1) None, ProcClose 0 (Some 1) None,
      TimerFired 0 ScriptMissing, TimerFired 1 ScriptMissing, TimerFired 2 SpawnReturns,
      ProcEnded 1 (Some 1) None, ProcExit 1 (Some 1) None, ProcClose 1 (Some 1) None]))
   = [2000, 3000, 4500, 2000]
   \<and> \<not> sorted (timers (final (run (initState None)
     [StartBot None SpawnReturns,
      ProcEnded 0 (Some 1) None, ProcExit 0 (Some 1) None, ProcClose 0 (Some 1) None,
      TimerFired 0 ScriptMissing, TimerFired 1 ScriptMissing, TimerFired 2 SpawnReturns,
      ProcEnded 1 (Some 1) None, ProcExit 1 (Some 1) None, ProcClose 1 (Some 1) None])))"
  by (simp add: launcher_defs)

text \<open>
  C2, as the code has it. In every state the launcher reaches from its start, the
  current delay and every delay a timer was armed with lie within \<open>[initial, max]\<close>.
  Over any further events during which no process is spawned, the delays of the timers
  armed there are non-decreasing.
\<close>

theorem delay_in_range_and_monotone:
  "delayInv (final (run (initState g) es))
   \<and> (length (procs (final (run (final (run (initState g) es)) es')))
         = length (procs (final (run (initState g) es)))
        \<longrightarrow> sorted (drop (length (timers (final (run (initState g) es))))
                       (timers (final (run (final (run (initState g) es)) es')))))"
proof -
  let ?s = "final (run (initState g) es)"
  have inv: "delayInv ?s" by (simp add: run_delayInv init_delayInv)
  moreover have "sorted (drop (length (timers ?s)) (timers (final (run ?s es'))))"
    if "length (procs (final (run ?s es'))) = length (procs ?s)"
    using run_no_spawn_sorted [OF inv that] by auto
  ultimately show ?thesis by blast
qed

theorem delay_in_range_and_monotone_witness:
  "delayInv (final (run (initState None) [StartBot None SpawnReturns]))
   \<and> length (procs (final (run (final (run (initState None) [StartBot None SpawnReturns]))
        [ProcEnded 0 (Some 1) None, ProcExit 0 (Some 1) None, ProcClose 0 (Some 1) None,
         TimerFired 0 ScriptMissing, TimerFired 1 ScriptMissing])))
      = length (procs (final (run (initState None) [StartBot None SpawnReturns])))
   \<and> sorted (drop (length (timers (final (run (initState None) [StartBot None SpawnReturns]))))
        (timers (final (run (final (run (initState None) [StartBot None SpawnReturns]))
           [ProcEnded 0 (Some 1) None, ProcExit 0 (Some 1) None, ProcClose 0 (Some 1) None,
            TimerFired 0 ScriptMissing, TimerFired 1 ScriptMissing]))))
   \<and> timers (final (run (final (run (initState None) [StartBot None SpawnReturns]))
           [ProcEnded 0 (Some 1) None, ProcExit 0 (Some 1) None, ProcClose 0 (Some 1) None,
            TimerFired 0 ScriptMissing, TimerFired 1 ScriptMissing])) = [2000, 3000, 4500]"
  using delay_in_range_and_monotone
    [of None "[StartBot None SpawnReturns]"
        "[ProcEnded 0 (Some 1) None, ProcExit 0 (Some 1) None, ProcClose 0 (Some 1) None,
          TimerFired 0 ScriptMissing, TimerFired 1 ScriptMissing]"]
  by (simp add: launcher_defs)

subsection \<open>C3: a spawn that returns a handle resets the delay\<close>

text \<open>
  C3. When \<open>startBot\<close> gets past its guard and \<open>spawn\<close> returns a process object, the
  current delay is the initial delay afterwards, whatever it was. If that child ends at
  once and the launcher is not shutting down, the restart is armed with the initial delay.
\<close>

theorem successful_spawn_resets_delay:
  assumes "\<not> childRunning s"
  shows "thrown (startBot m SpawnReturns s) = None
         \<and> currentDelay (final (startBot m SpawnReturns s)) = initial BACKOFF
         \<and> child (final (startBot m SpawnReturns s)) = Some (length (procs s))
         \<and> (\<not> restarting s \<longrightarrow>
              timers (final (run s [StartBot m SpawnReturns, ProcEnded (length (procs s)) c sg,
                             ProcExit (length (procs s)) c sg, ProcClose (length (procs s)) c sg]))
                = timers s @ [initial BACKOFF])"
  using assms
  by (simp add: startBot_ok hasProc_def processAlive_def onExit_def onClose_schedules)

theorem successful_spawn_resets_delay_witness:
  "\<not> childRunning (final (run (initState None)
        [StartBot None ScriptMissing, TimerFired 0 ScriptMissing]))
   \<and> \<not> restarting (final (run (initState None)
        [StartBot None ScriptMissing, TimerFired 0 ScriptMissing]))
   \<and> currentDelay (final (run (initState None)
        [StartBot None ScriptMissing, TimerFired 0 ScriptMissing])) = 4500
   \<and> currentDelay (final (startBot None SpawnReturns
         (final (run (initState None)
            [StartBot None ScriptMissing, TimerFired 0 ScriptMissing])))) = 2000
   \<and> timers (final (run (final (run (initState None)
            [StartBot None ScriptMissing, TimerFired 0 ScriptMissing]))
        [StartBot None SpawnReturns, ProcEnded 0 (Some 1) None, ProcExit 0 (Some 1) None,
         ProcClose 0 (Some 1) None])) = [2000, 3000, 2000]"
proof -
  let ?s = "final (run (initState None) [StartBot None ScriptMissing, TimerFired 0 ScriptMissing])"
  have f: "\<not> childRunning ?s"
    by (simp add: launcher_defs)
  show ?thesis
    using successful_spawn_resets_delay [OF f, of None "Some 1" None]
    by (simp add: launcher_defs)
qed

subsection \<open>C4: a spawn that throws\<close>

text \<open>
  C4 holds for a missing script and for the errors the runtime reports through the
  \<open>error\<close> event, and fails where \<open>spawn\<close> throws: line 90 stands in no \<open>try\<close>, so
  the exception leaves \<open>spawnChild\<close> and \<open>startBot\<close> and reaches the caller, and no
  retry is armed. At the first start \<open>startBot\<close> throws \<open>spawn E2BIG\<close> and no timer is
  pending; when a retry hits the same error, the exception leaves the timer callback,
  the run ends with it and no timer is pending either.
\<close>

theorem spawn_throw_reaches_caller:
  "startBot None (SpawnThrows ''E2BIG'') (initState None)
      = Inl (SpawnError ''E2BIG'', initState None)
   \<and> pending (initState None) = []
   \<and> thrown (run (initState None)
        [StartBot None ScriptMissing, TimerFired 0 (SpawnThrows ''E2BIG'')])
      = Some (SpawnError ''E2BIG'')
   \<and> pending (final (run (initState None)
        [StartBot None ScriptMissing, TimerFired 0 (SpawnThrows ''E2BIG'')])) = []
   \<and> procs (final (run (initState None)
        [StartBot None ScriptMissing, TimerFired 0 (SpawnThrows ''E2BIG'')])) = []"
  by (simp add: launcher_defs)

subsection \<open>C5: shutdown and later spawns\<close>

text \<open>
  C5 as stated fails: \<open>startBot\<close> never tests the flag that shutdown sets. A child has
  exited and its restart timer is pending, no child is alive; shutdown cancels the
  timer, and a call of \<open>startBot\<close> after it spawns a new child all the same.
\<close>

theorem start_after_shutdown_counterexample:
  "pending (final (run (initState None)
      [StartBot None SpawnReturns, ProcEnded 0 (Some 1) None, ProcClose 0 (Some 1) None]))
     = [0]
   \<and> filter processAlive (procs (final (run (initState None)
      [StartBot None SpawnReturns, ProcEnded 0 (Some 1) None, ProcClose 0 (Some 1) None])))
     = []
   \<and> length (procs (final (run (initState None)
      [StartBot None SpawnReturns, ProcEnded 0 (Some 1) None, ProcClose 0 (Some 1) None,
       Shutdown]))) = 1
   \<and> length (procs (final (run (initState None)
      [StartBot None SpawnReturns, ProcEnded 0 (Some 1) None, ProcClose 0 (Some 1) None,
       Shutdown, StartBot None SpawnReturns]))) = 2
   \<and> processAlive (procs (final (run (initState None)
      [StartBot None SpawnReturns, ProcEnded 0 (Some 1) None, ProcClose 0 (Some 1) None,
       Shutdown, StartBot None SpawnReturns])) ! 1)"
  by (simp add: launcher_defs)

text \<open>
  C5, as the code has it. Whatever the launcher has done before, \<open>shutdown\<close> leaves no
  timer armed, and over any later events that are not direct calls of \<open>startBot\<close>
  (child exits and closes in any order, timer expiries, further signals) no process is
  spawned. This covers a child exit just before the signal (its restart timer is
  cancelled) and just after it (the \<open>close\<close> handler of line 142 returns early).
\<close>

theorem no_spawn_after_shutdown:
  assumes "list_all notStartBot es"
  shows "pending (shutdown (final (run (initState g) es0))) = []
         \<and> thrown (run (shutdown (final (run (initState g) es0))) es) = None
         \<and> length (procs (final (run (shutdown (final (run (initState g) es0))) es)))
             = length (procs (final (run (initState g) es0)))"
proof -
  let ?s = "final (run (initState g) es0)"
  have "timerInv ?s" by (simp add: run_timerInv init_timerInv)
  then have p: "pending (shutdown ?s) = []" by (simp add: timerInv_def split: option.splits)
  have "length (procs (final (run (shutdown ?s) es))) = length (procs (shutdown ?s))"
    using p assms by (intro run_after_shutdown) simp_all
  moreover have "thrown (run (shutdown ?s) es) = None"
    using p assms by (intro run_after_shutdown_returns) simp_all
  ultimately show ?thesis using p by simp
qed

theorem no_spawn_after_shutdown_witness:
  "list_all notStartBot [ProcClose 0 (Some 1) None, TimerFired 0 SpawnReturns]
   \<and> pending (final (run (initState None)
        [StartBot None SpawnReturns, ProcEnded 0 (Some 1) None, ProcClose 0 (Some 1) None]))
      = [0]
   \<and> pending (shutdown (final (run (initState None)
        [StartBot None SpawnReturns, ProcEnded 0 (Some 1) None, ProcClose 0 (Some 1) None])))
      = []
   \<and> length (procs (final (run (shutdown (final (run (initState None)
        [StartBot None SpawnReturns, ProcEnded 0 (Some 1) None, ProcClose 0 (Some 1) None])))
        [ProcClose 0 (Some 1) None, TimerFired 0 SpawnReturns]))) = 1"
proof -
  have h: "list_all notStartBot [ProcClose 0 (Some 1) None, TimerFired 0 SpawnReturns]"
    by simp
  show ?thesis
    using h no_spawn_after_shutdown [OF h, of None
        "[StartBot None SpawnReturns, ProcEnded 0 (Some 1) None, ProcClose 0 (Some 1) None]"]
    by (simp add: launcher_defs)
qed

subsection \<open>C6: the restart counter\<close>

text \<open>
  C6 as stated fails: line 136 sets the counter to 0 at every successful spawn. After
  one failed retry the counter is 1; the next retry, which spawns a child, puts it back
  to 0. A counter that was 3 when the launcher was loaded is 0 after the first spawn.
\<close>

theorem counter_reset_counterexample:
  "countRestart (final (run (initState None)
      [StartBot None ScriptMissing, TimerFired 0 ScriptMissing])) = 1
   \<and> countRestart (final (run (initState None)
        [StartBot None ScriptMissing, TimerFired 0 ScriptMissing, TimerFired 1 SpawnReturns]))
      = 0
   \<and> countRestart (initState (Some 3)) = 3
   \<and> countRestart (final (startBot None SpawnReturns (initState (Some 3)))) = 0"
  by (simp add: launcher_defs)

text \<open>
  C6, as the code has it. Every event that spawns a process sets the restart counter to
  0, and no other event lowers it.
\<close>

theorem counter_reset_only_by_spawn:
  "(length (procs (final (step s e))) = Suc (length (procs s))
      \<longrightarrow> countRestart (final (step s e)) = 0)
   \<and> (countRestart s \<le> countRestart (final (step s e))
      \<or> length (procs (final (step s e))) = Suc (length (procs s)))"
proof (cases e)
  case (StartBot m a)
  then show ?thesis
    by (cases "childRunning s"; cases a)
       (simp_all add: startBot_skip startBot_ok startBot_fail startBot_throws)
next
  case (TimerFired t a)
  let ?s0 = "s\<lparr> pending := removeAll t (pending s), restartTimer := None,
                 countRestart := countRestart s + 1 \<rparr>"
  show ?thesis using TimerFired
    by (cases "childRunning ?s0"; cases a)
       (simp_all add: restartCallback_def restartCallbackRest_def startBot_skip startBot_ok
          startBot_fail startBot_throws)
qed (simp_all add: onExit_def onListening_def onServerError_def)

theorem counter_reset_only_by_spawn_witness:
  "length (procs (final (step (initState (Some 3)) (StartBot None SpawnReturns))))
     = Suc (length (procs (initState (Some 3))))
   \<and> countRestart (initState (Some 3)) = 3
   \<and> countRestart (final (step (initState (Some 3)) (StartBot None SpawnReturns))) = 0"
  using counter_reset_only_by_spawn [of "initState (Some 3)" "StartBot None SpawnReturns"]
  by (simp add: launcher_defs)

subsection \<open>C7: starting while a child runs\<close>




subsection \<open>C8: one child at a time\<close>

text \<open>
  C8 as stated fails: line 121 does not count a child that has been sent a signal.
  After a start, a termination request and a second start, two processes are alive.
\<close>

theorem two_live_processes_counterexample:
  "length (filter processAlive (procs (final (run (initState None)
      [StartBot None SpawnReturns, Terminate 0, StartBot None SpawnReturns])))) = 2"
  by (simp add: launcher_defs)

text \<open>
  C8, as the code has it. In every state the launcher reaches from its start, at most
  one process object is neither marked killed nor has an exit code, and if there is one,
  it is the one \<open>child\<close> holds.
\<close>

theorem one_regarded_child:
  "childInv (final (run (initState g) es))
   \<and> length (filter regarded (procs (final (run (initState g) es)))) \<le> 1"
proof -
  let ?s = "final (run (initState g) es)"
  have inv: "childInv ?s" by (simp add: run_childInv init_childInv)
  show ?thesis
  proof (cases "child ?s")
    case None
    with inv have "length (filter regarded (procs ?s)) \<le> 1"
      by (intro filter_at_most_one [where k = 0]) (simp add: childInv_def)
    with inv show ?thesis by simp
  next
    case (Some c)
    with inv have "length (filter regarded (procs ?s)) \<le> 1"
      by (intro filter_at_most_one [where k = c]) (simp add: childInv_def)
    with inv show ?thesis by simp
  qed
qed

theorem one_regarded_child_witness:
  "1 < length (procs (final (run (initState None)
        [StartBot None SpawnReturns, Terminate 0, StartBot None SpawnReturns])))
   \<and> regarded (procs (final (run (initState None)
        [StartBot None SpawnReturns, Terminate 0, StartBot None SpawnReturns])) ! 1)
   \<and> child (final (run (initState None)
        [StartBot None SpawnReturns, Terminate 0, StartBot None SpawnReturns])) = Some 1
   \<and> length (filter regarded (procs (final (run (initState None)
        [StartBot None SpawnReturns, Terminate 0, StartBot None SpawnReturns])))) = 1"
  using one_regarded_child
    [of None "[StartBot None SpawnReturns, Terminate 0, StartBot None SpawnReturns]"]
  by (simp add: launcher_defs regarded_def childInv_def)

subsection \<open>C9: a listener error does not touch the supervision\<close>

text \<open>
  C9. The listener's \<open>error\<close> handler returns; it appends one line to the log (the
  permission message for \<open>EACCES\<close>, the error's message otherwise) and changes
  nothing else; every later run of events goes exactly as it would have gone without
  the error.
\<close>

theorem server_error_leaves_supervision:
  "thrown (step s (ServerError code message)) = None
   \<and> logged (final (step s (ServerError code message))) =
      logged s @ [if code = ''EACCES'' then LogPermissionDenied else LogServerError message]
   \<and> supervision (final (step s (ServerError code message))) = supervision s
   \<and> view (run (final (step s (ServerError code message))) es) = view (run s es)
   \<and> view (run s (ServerError code message # es)) = view (run s es)"
proof -
  have same: "supervision (final (step s (ServerError code message))) = supervision s"
    by (simp add: onServerError_def)
  have later: "view (run (final (step s (ServerError code message))) es) = view (run s es)"
    using same by (rule view_run)
  moreover have "view (run s (ServerError code message # es)) = view (run s es)"
    using later by simp
  moreover have "logged (final (step s (ServerError code message))) =
      logged s @ [if code = ''EACCES'' then LogPermissionDenied else LogServerError message]"
    by (simp add: onServerError_def)
  moreover have "thrown (step s (ServerError code message)) = None" by simp
  ultimately show ?thesis using same by blast
qed

subsection \<open>C10: one pending restart timer\<close>

text \<open>
  C10. In every state the launcher reaches from its start, the armed timers are exactly
  the one \<open>restartTimer\<close> holds, so at most one is pending; and a call of
  \<open>scheduleRestartWithBackoff\<close> there leaves exactly the timer it has just armed.
\<close>

theorem single_pending_timer:
  "timerInv (final (run (initState g) es))
   \<and> length (pending (final (run (initState g) es))) \<le> 1
   \<and> pending (scheduleRestartWithBackoff r (final (run (initState g) es)))
       = [length (timers (final (run (initState g) es)))]"
proof -
  have inv: "timerInv (final (run (initState g) es))" by (simp add: run_timerInv init_timerInv)
  then have "length (pending (final (run (initState g) es))) \<le> 1"
    by (simp add: timerInv_def split: option.splits)
  then show ?thesis using inv schedule_timerInv by blast
qed

end
